theory Spec2Isabelle
  imports Complex_Main "HOL-Library.Word"
begin

section \<open>JavaScript values\<close>

text \<open>
  A JavaScript string is a sequence of UTF-16 code units; \<open>length\<close>, \<open>slice\<close> and
  \<open>replace\<close> count code units. ASCII literals of the source are written
  \<open>ascii ''...''\<close>.
\<close>

type_synonym code_unit = "16 word"
type_synonym jsstring = "code_unit list"

definition ascii :: "string \<Rightarrow> jsstring" where
  "ascii s = map of_char s"

text \<open>
  A value read from a property or passed as an argument whose TypeScript type is
  \<open>T | null | undefined\<close>. \<open>Undefined\<close> is what reading a missing property yields.
\<close>

datatype 'a js = Undefined | Null | Val 'a

text \<open>Truthiness of a string-or-nothing value: \<open>undefined\<close>, \<open>null\<close> and \<open>""\<close> are falsy.\<close>

fun truthy_str :: "jsstring js \<Rightarrow> bool" where
  "truthy_str (Val s) = (s \<noteq> [])"
| "truthy_str _ = False"

text \<open>The expression \<open>x || null\<close> on such a value.\<close>

definition or_null :: "jsstring js \<Rightarrow> jsstring js" where
  "or_null x = (if truthy_str x then x else Null)"

section \<open>Key validation: \<open>processKey\<close>\<close>

text \<open>
  \<open>validKeyRegex\<close> is the anchored, starred character class of digits, ASCII letters,
  the range from U+0080 to U+FFFF, the slash and the hyphen. Under its \<open>u\<close> flag the
  matcher walks the string by code points: a high surrogate directly followed by a low
  surrogate is one code point above \<open>0xFFFF\<close>; every other code unit, a lone surrogate
  included, is the code point of its own value.
\<close>

definition is_high_surrogate :: "code_unit \<Rightarrow> bool" where
  "is_high_surrogate u \<longleftrightarrow> 0xD800 \<le> u \<and> u \<le> 0xDBFF"

definition is_low_surrogate :: "code_unit \<Rightarrow> bool" where
  "is_low_surrogate u \<longleftrightarrow> 0xDC00 \<le> u \<and> u \<le> 0xDFFF"

definition surrogate_pair_value :: "code_unit \<Rightarrow> code_unit \<Rightarrow> nat" where
  "surrogate_pair_value hi lo =
     0x10000 + (unat hi - 0xD800) * 0x400 + (unat lo - 0xDC00)"

fun code_points :: "jsstring \<Rightarrow> nat list" where
  "code_points [] = []"
| "code_points [u] = [unat u]"
| "code_points (u # v # rest) =
     (if is_high_surrogate u \<and> is_low_surrogate v
      then surrogate_pair_value u v # code_points rest
      else unat u # code_points (v # rest))"

text \<open>The character class: \<open>0-9\<close>, \<open>A-Z\<close>, \<open>a-z\<close>, U+0080 to U+FFFF, \<open>/\<close> and \<open>-\<close>.\<close>

definition in_key_class :: "nat \<Rightarrow> bool" where
  "in_key_class c \<longleftrightarrow>
     (0x30 \<le> c \<and> c \<le> 0x39) \<or> (0x41 \<le> c \<and> c \<le> 0x5A) \<or> (0x61 \<le> c \<and> c \<le> 0x7A) \<or>
     (0x80 \<le> c \<and> c \<le> 0xFFFF) \<or> c = 0x2F \<or> c = 0x2D"

definition validKeyRegex_test :: "jsstring \<Rightarrow> bool" where
  "validKeyRegex_test key = list_all in_key_class (code_points key)"

text \<open>
  The global \<open>replace\<close> of \<open>processKey\<close> deletes every match of "one or more slashes at
  the start, or one or more slashes at the end": the first alternative removes the longest
  run of slashes at the start, the second the longest run at the end of what is left.
\<close>

definition is_slash :: "code_unit \<Rightarrow> bool" where
  "is_slash u \<longleftrightarrow> u = 0x2F"

definition strip_slashes :: "jsstring \<Rightarrow> jsstring" where
  "strip_slashes key = rev (dropWhile is_slash (rev (dropWhile is_slash key)))"

definition processKey :: "jsstring \<Rightarrow> jsstring option" where
  "processKey key =
     (if \<not> validKeyRegex_test key then None
      else let key' = strip_slashes key
           in if length key' = 0 then None else Some key')"

text \<open>
  The allowed set in the words of the specification: digits, ASCII letters, every code
  point above the ASCII range, \<open>/\<close> and \<open>-\<close>, with no upper bound.
\<close>

definition spec_allowed_code_point :: "nat \<Rightarrow> bool" where
  "spec_allowed_code_point c \<longleftrightarrow>
     (0x30 \<le> c \<and> c \<le> 0x39) \<or> (0x41 \<le> c \<and> c \<le> 0x5A) \<or> (0x61 \<le> c \<and> c \<le> 0x7A) \<or>
     0x7F < c \<or> c = 0x2F \<or> c = 0x2D"

section \<open>Metadata truncation: \<open>truncate\<close>\<close>

text \<open>
  The source's \<open>truncate\<close> is \<open>truncate_str\<close> here, since every record type brings a
  \<open>truncate\<close> of its own.
\<close>

text \<open>\<open>str.slice(0, end)\<close>: a negative \<open>end\<close> counts from the end of the string.\<close>

definition slice_from_start :: "jsstring \<Rightarrow> int \<Rightarrow> jsstring" where
  "slice_from_start s end =
     (let len = int (length s);
          to = (if end < 0 then max (len + end) 0 else min end len)
      in take (nat to) s)"

definition truncate_str :: "jsstring js \<Rightarrow> int \<Rightarrow> jsstring js" where
  "truncate_str str len =
     (case str of
        Val s \<Rightarrow>
          if s = [] \<or> int (length s) \<le> len then str
          else Val (slice_from_start s (len - 3) @ ascii ''...'')
      | _ \<Rightarrow> str)"

section \<open>Preview page: \<open>generateLinkPreview\<close>\<close>

text \<open>
  A default parameter value replaces \<open>undefined\<close> only; \<open>null\<close> is passed through, and
  a template literal renders it as the text \<open>null\<close>.
\<close>

fun default_param :: "jsstring js \<Rightarrow> jsstring \<Rightarrow> jsstring js" where
  "default_param Undefined d = Val d"
| "default_param x d = x"

fun template_string :: "jsstring js \<Rightarrow> jsstring" where
  "template_string (Val s) = s"
| "template_string Null = ascii ''null''"
| "template_string Undefined = ascii ''undefined''"

definition nl :: jsstring where
  "nl = [0x0A]"

definition dq :: jsstring where
  "dq = [0x22]"

definition meta_tag :: "string \<Rightarrow> jsstring \<Rightarrow> jsstring" where
  "meta_tag property content =
     ascii ''<meta property='' @ dq @ ascii property @ dq @
     ascii '' content='' @ dq @ content @ dq @ ascii '' />''"

definition generateLinkPreview :: "jsstring js \<Rightarrow> jsstring js \<Rightarrow> jsstring js \<Rightarrow> jsstring" where
  "generateLinkPreview title_arg description_arg image_arg =
     (let title = default_param title_arg (ascii ''Link Preview'');
          description = default_param description_arg (ascii ''Link Description'');
          image = default_param image_arg (ascii ''#'')
      in nl @ ascii ''      <html>'' @ nl @
         ascii ''      <head>'' @ nl @
         ascii ''        '' @ meta_tag ''og:title'' (template_string title) @ nl @
         ascii ''        '' @ meta_tag ''og:description'' (template_string description) @ nl @
         ascii ''        '' @ meta_tag ''og:image'' (template_string image) @ nl @
         ascii ''      </head>'' @ nl @
         ascii ''    </html>'' @ nl @
         ascii ''      '')"

section \<open>The link table\<close>

text \<open>
  A row of table \<open>Link\<close>. Instants are milliseconds since the epoch. \<open>clicks\<close> is an
  \<open>INTEGER\<close> column; its upper limit belongs to the storage engine and is not modelled.
  The table is keyed by its unique index on \<open>key\<close>, compared as plain strings.
\<close>

record link =
  link_id :: jsstring
  link_key :: jsstring
  link_url :: jsstring
  link_archived :: bool
  link_expiresAt :: "int option"
  link_title :: "jsstring option"
  link_description :: "jsstring option"
  link_image :: "jsstring option"
  link_userId :: "jsstring option"
  link_clicks :: int
  link_createdAt :: int
  link_updatedAt :: int

type_synonym link_table = "jsstring \<rightharpoonup> link"

text \<open>\<open>prismaClient.link.create\<close>: the unique index on \<open>key\<close> rejects a duplicate (\<open>None\<close>).\<close>

definition link_create :: "link_table \<Rightarrow> link \<Rightarrow> link_table option" where
  "link_create t row =
     (if t (link_key row) \<noteq> None then None else Some (t(link_key row \<mapsto> row)))"

text \<open>
  \<open>prismaClient.link.update\<close> of the row with the given key: a missing row makes it
  throw (\<open>None\<close>); \<open>updatedAt\<close> is maintained by the client on every update.
\<close>

definition link_update :: "link_table \<Rightarrow> jsstring \<Rightarrow> (link \<Rightarrow> link) \<Rightarrow> int \<Rightarrow> link_table option" where
  "link_update t k change now =
     (case t k of
        None \<Rightarrow> None
      | Some row \<Rightarrow> Some (t(k \<mapsto> (change row)\<lparr>link_updatedAt := now\<rparr>)))"

section \<open>Link objects and their JSON text\<close>

text \<open>
  The object held by variable \<open>link\<close> of \<open>handleGetLink\<close>: a row as the database client
  returns it, or whatever \<open>JSON.parse\<close> rebuilds from the cache. Reading a property the
  object lacks yields \<open>Undefined\<close>. An instant is a \<open>Date\<close> in a row and its ISO-8601
  string after JSON; \<open>new Date\<close> of either is the same instant, and both are truthy.
\<close>

record link_object =
  o_id :: "jsstring js"
  o_key :: "jsstring js"
  o_url :: "jsstring js"
  o_archived :: "bool js"
  o_expiresAt :: "int js"
  o_title :: "jsstring js"
  o_description :: "jsstring js"
  o_image :: "jsstring js"
  o_userId :: "jsstring js"
  o_clicks :: "int js"
  o_createdAt :: "int js"
  o_updatedAt :: "int js"

fun of_option :: "'a option \<Rightarrow> 'a js" where
  "of_option None = Null"
| "of_option (Some x) = Val x"

fun to_option :: "'a js \<Rightarrow> 'a option" where
  "to_option (Val x) = Some x"
| "to_option _ = None"

definition object_of_row :: "link \<Rightarrow> link_object" where
  "object_of_row row =
     \<lparr>o_id = Val (link_id row), o_key = Val (link_key row), o_url = Val (link_url row),
      o_archived = Val (link_archived row), o_expiresAt = of_option (link_expiresAt row),
      o_title = of_option (link_title row), o_description = of_option (link_description row),
      o_image = of_option (link_image row), o_userId = of_option (link_userId row),
      o_clicks = Val (link_clicks row), o_createdAt = Val (link_createdAt row),
      o_updatedAt = Val (link_updatedAt row)\<rparr>"

text \<open>
  A JSON text is represented by the object it denotes: \<open>JSON.stringify\<close> leaves out the
  properties that are \<open>undefined\<close>, and reading them from the parsed object yields
  \<open>undefined\<close> again.
\<close>

datatype json_text = JSON link_object

definition JSON_stringify :: "link_object \<Rightarrow> json_text" where
  "JSON_stringify obj = JSON obj"

fun JSON_parse :: "json_text \<Rightarrow> link_object" where
  "JSON_parse (JSON obj) = obj"

section \<open>The cache\<close>

text \<open>
  The Redis commands the handlers issue. An entry may carry an absolute expiry in whole
  epoch seconds (\<open>EXAT\<close>); from that second on the entry is gone. \<open>SET\<close> checks its
  expiry argument first (it must be a positive integer, otherwise the command fails,
  \<open>None\<close>), then \<open>NX\<close> (write only if no entry is there). A plain \<open>SET\<close> overwrites and
  clears any expiry.
\<close>

record cache_entry =
  entry_value :: json_text
  entry_exat :: "int option"

type_synonym cache_map = "jsstring \<rightharpoonup> cache_entry"

record set_options =
  NX :: bool
  EXAT :: "rat option"

definition entry_live :: "int \<Rightarrow> cache_entry \<Rightarrow> bool" where
  "entry_live now e = (case entry_exat e of None \<Rightarrow> True | Some s \<Rightarrow> now < s * 1000)"

definition redis_get :: "int \<Rightarrow> cache_map \<Rightarrow> jsstring \<Rightarrow> json_text option" where
  "redis_get now c k =
     (case c k of
        None \<Rightarrow> None
      | Some e \<Rightarrow> if entry_live now e then Some (entry_value e) else None)"

definition redis_set :: "int \<Rightarrow> cache_map \<Rightarrow> jsstring \<Rightarrow> json_text \<Rightarrow> set_options \<Rightarrow> cache_map option" where
  "redis_set now c k v opts =
     (case EXAT opts of
        Some x \<Rightarrow>
          if x \<noteq> of_int \<lfloor>x\<rfloor> \<or> x \<le> 0 then None
          else if NX opts \<and> redis_get now c k \<noteq> None then Some c
          else Some (c(k \<mapsto> \<lparr>entry_value = v, entry_exat = Some \<lfloor>x\<rfloor>\<rparr>))
      | None \<Rightarrow>
          if NX opts \<and> redis_get now c k \<noteq> None then Some c
          else Some (c(k \<mapsto> \<lparr>entry_value = v, entry_exat = None\<rparr>)))"

definition redis_del :: "cache_map \<Rightarrow> jsstring \<Rightarrow> cache_map" where
  "redis_del c k = c(k := None)"

section \<open>The handlers\<close>

record world =
  links :: link_table
  cache :: cache_map

datatype response =
    BadRequest string
  | NotFound string
  | Conflict string
  | Gone string
  | Created string
  | Ok string
  | BotPreview jsstring
  | Redirect "jsstring js"
  | ServerError

subsection \<open>\<open>checkIfKeyExists\<close>\<close>

definition reservedKeys :: "jsstring list" where
  "reservedKeys = [ascii ''blog'', ascii ''pricing'', ascii ''privacy'']"

definition checkIfKeyExists :: "link_table \<Rightarrow> jsstring \<Rightarrow> bool" where
  "checkIfKeyExists t key = (if key \<in> set reservedKeys then True else t key \<noteq> None)"

subsection \<open>\<open>handleCreateLink\<close>\<close>

text \<open>
  The request as the handler destructures it. The route's validation schema requires
  \<open>url\<close> and \<open>key\<close> to be strings; \<open>expiresAt\<close>, when given, is taken to denote an instant.
  \<open>getMetadata\<close> is an outside call: it returns the page's metadata or throws.
\<close>

record create_request =
  req_url :: jsstring
  req_key :: jsstring
  req_expiresAt :: "int option"
  req_userId :: "jsstring option"

record og_image =
  secure_url :: "jsstring js"
  image_url :: "jsstring js"

record open_graph =
  og_title :: "jsstring js"
  og_description :: "jsstring js"
  og_images :: "og_image list js"

datatype metadata_result = FetchFailed | Metadata "open_graph js"

text \<open>The destructuring of \<open>open_graph || {}\<close>.\<close>

definition title_of :: "open_graph js \<Rightarrow> jsstring js" where
  "title_of og = (case og of Val g \<Rightarrow> og_title g | _ \<Rightarrow> Undefined)"

definition description_of :: "open_graph js \<Rightarrow> jsstring js" where
  "description_of og = (case og of Val g \<Rightarrow> og_description g | _ \<Rightarrow> Undefined)"

definition images_of :: "open_graph js \<Rightarrow> og_image list js" where
  "images_of og = (case og of Val g \<Rightarrow> og_images g | _ \<Rightarrow> Undefined)"

text \<open>The first image's \<open>secure_url\<close>, or else its \<open>url\<close>; \<open>undefined\<close> without images.\<close>

definition first_image :: "og_image list js \<Rightarrow> jsstring js" where
  "first_image images =
     (case images of
        Val (i # _) \<Rightarrow> if truthy_str (secure_url i) then secure_url i else image_url i
      | _ \<Rightarrow> Undefined)"

text \<open>The expression \<open>description || ''\<close>.\<close>

definition or_empty :: "jsstring js \<Rightarrow> jsstring js" where
  "or_empty x = (if truthy_str x then x else Val [])"

text \<open>The object literal that the handler serializes into the cache.\<close>

definition created_cache_object :: "jsstring \<Rightarrow> jsstring js \<Rightarrow> jsstring js \<Rightarrow> jsstring js \<Rightarrow> link_object" where
  "created_cache_object url title description img =
     \<lparr>o_id = Undefined, o_key = Undefined, o_url = Val url,
      o_archived = Undefined, o_expiresAt = Undefined,
      o_title = title, o_description = description, o_image = img,
      o_userId = Undefined, o_clicks = Undefined, o_createdAt = Undefined,
      o_updatedAt = Undefined\<rparr>"

text \<open>
  \<open>now\<close> is the clock, \<open>new_id\<close> the identifier the database client generates for the
  row, \<open>fetched\<close> the outcome of \<open>getMetadata\<close>. An exception of an awaited call leaves
  the handler (\<open>ServerError\<close>) with the effects done so far.
\<close>

definition handleCreateLink ::
  "int \<Rightarrow> jsstring \<Rightarrow> metadata_result \<Rightarrow> world \<Rightarrow> create_request \<Rightarrow> response \<times> world" where
  "handleCreateLink now new_id fetched w req =
     (let url = req_url req; key = req_key req; expiresAt = req_expiresAt req;
          userId = req_userId req
      in if url = [] \<or> key = [] then (BadRequest ''Link and Key are required!'', w)
         else if processKey key = None then (BadRequest ''Invalid Key!'', w)
         else if checkIfKeyExists (links w) key then (Conflict ''Key already exists!'', w)
         else
           (case fetched of
             FetchFailed \<Rightarrow> (ServerError, w)
           | Metadata og \<Rightarrow>
               let title = title_of og; description = description_of og;
                   image = first_image (images_of og);
                   row = \<lparr>link_id = new_id, link_key = key, link_url = url,
                          link_archived = False, link_expiresAt = expiresAt,
                          link_title = to_option (or_null (truncate_str title 120)),
                          link_description =
                            to_option (or_null (truncate_str (or_empty description) 240)),
                          link_image = to_option (or_null image),
                          link_userId = userId, link_clicks = 0,
                          link_createdAt = now, link_updatedAt = now\<rparr>
               in (case link_create (links w) row of
                     None \<Rightarrow> (ServerError, w)
                   | Some t \<Rightarrow>
                       let w1 = w\<lparr>links := t\<rparr>;
                           exat = map_option (\<lambda>ms. rat_of_int ms / 1000) expiresAt;
                           text = JSON_stringify
                                    (created_cache_object url
                                       (or_null (truncate_str title 120))
                                       (or_null (truncate_str (or_empty description) 240))
                                       (or_null image));
                           opts = \<lparr>NX = True,
                                    EXAT = (case exat of
                                              Some x \<Rightarrow> if x \<noteq> 0 then Some x else None
                                            | None \<Rightarrow> None)\<rparr>
                       in (case redis_set now (cache w1) key text opts of
                             None \<Rightarrow> (ServerError, w1)
                           | Some c \<Rightarrow> (Created ''Link created!'', w1\<lparr>cache := c\<rparr>)))))"

subsection \<open>\<open>handleGetLink\<close>\<close>

text \<open>A JavaScript number that is an integer or \<open>NaN\<close>.\<close>

datatype jsnum = NaN | Fin int

record workerData =
  wd_key :: jsstring
  wd_clicks :: jsnum

text \<open>\<open>link.clicks + 1\<close>: \<open>undefined + 1\<close> is \<open>NaN\<close>, \<open>null + 1\<close> is \<open>1\<close>.\<close>

fun clicks_plus_one :: "int js \<Rightarrow> jsnum" where
  "clicks_plus_one (Val n) = Fin (n + 1)"
| "clicks_plus_one Null = Fin 1"
| "clicks_plus_one Undefined = NaN"

text \<open>The test \<open>link.expiresAt && new Date(link.expiresAt) < new Date()\<close>.\<close>

fun expired :: "int js \<Rightarrow> int \<Rightarrow> bool" where
  "expired (Val instant) now = (instant < now)"
| "expired _ now = False"

fun truthy_bool :: "bool js \<Rightarrow> bool" where
  "truthy_bool (Val b) = b"
| "truthy_bool _ = False"

text \<open>
  The part of the handler after the lookup, from the expiry gate to the response.
  \<open>is_bot\<close> is the verdict of \<open>isbot\<close> on the request's user agent. The second component
  is the \<open>workerData\<close> handed to \<open>updateLinkClicks\<close>, if any: the worker runs after the
  response.
\<close>

definition respond_with_link ::
  "int \<Rightarrow> bool \<Rightarrow> jsstring \<Rightarrow> link_object \<Rightarrow> response \<times> workerData option" where
  "respond_with_link now is_bot key link =
     (if expired (o_expiresAt link) now then (Gone ''Link expired'', None)
      else if truthy_bool (o_archived link) then (Gone ''Link archived'', None)
      else if is_bot
        then (BotPreview (generateLinkPreview (o_title link) (o_description link) (o_image link)),
              None)
      else (Redirect (o_url link),
            Some \<lparr>wd_key = key, wd_clicks = clicks_plus_one (o_clicks link)\<rparr>))"

text \<open>
  The lookup: the cache first, the table on a miss, with a plain \<open>SET\<close> of the row's JSON
  text before anything else is looked at. A cache text always parses to an object, so the
  handler's second test for a missing link never fires.
\<close>

definition handleGetLink ::
  "int \<Rightarrow> bool \<Rightarrow> world \<Rightarrow> jsstring \<Rightarrow> response \<times> world \<times> workerData option" where
  "handleGetLink now is_bot w key =
     (if key = [] then (BadRequest ''Key is required!'', w, None)
      else
        (case redis_get now (cache w) key of
          None \<Rightarrow>
            (case links w key of
               None \<Rightarrow> (NotFound ''Link not found'', w, None)
             | Some row \<Rightarrow>
                 (case redis_set now (cache w) key (JSON_stringify (object_of_row row))
                         \<lparr>NX = False, EXAT = None\<rparr> of
                    None \<Rightarrow> (ServerError, w, None)
                  | Some c \<Rightarrow>
                      let (resp, dispatched) = respond_with_link now is_bot key (object_of_row row)
                      in (resp, w\<lparr>cache := c\<rparr>, dispatched)))
        | Some text \<Rightarrow>
            let (resp, dispatched) = respond_with_link now is_bot key (JSON_parse text)
            in (resp, w, dispatched)))"

subsection \<open>\<open>updateLinkClicksWorker\<close>\<close>

text \<open>
  The worker reads only \<open>key\<close> from its \<open>workerData\<close> and issues one update with
  \<open>clicks: {increment: 1}\<close>. \<open>None\<close> is the rejected update that the worker reports as
  status \<open>error\<close>.
\<close>

definition updateLinkClicksWorker :: "int \<Rightarrow> link_table \<Rightarrow> workerData \<Rightarrow> link_table option" where
  "updateLinkClicksWorker now t workerData =
     (let key = wd_key workerData
      in link_update t key (\<lambda>row. row\<lparr>link_clicks := link_clicks row + 1\<rparr>) now)"

text \<open>
  Running the dispatched worker, if there is one, against the world: a failed update is
  logged and changes nothing.
\<close>

definition run_worker :: "int \<Rightarrow> world \<Rightarrow> workerData option \<Rightarrow> world" where
  "run_worker now w dispatched =
     (case dispatched of
        None \<Rightarrow> w
      | Some wd \<Rightarrow>
          (case updateLinkClicksWorker now (links w) wd of
             None \<Rightarrow> w
           | Some t \<Rightarrow> w\<lparr>links := t\<rparr>))"

subsection \<open>\<open>handleLinkArchive\<close>\<close>

definition handleLinkArchive :: "int \<Rightarrow> world \<Rightarrow> jsstring \<Rightarrow> response \<times> world" where
  "handleLinkArchive now w key =
     (if key = [] then (BadRequest ''Key is required!'', w)
      else
        (case links w key of
          None \<Rightarrow> (NotFound ''Link not found'', w)
        | Some link \<Rightarrow>
            if link_archived link then (Conflict ''Link already archived'', w)
            else
              let w1 = w\<lparr>cache := redis_del (cache w) key\<rparr>
              in (case link_update (links w1) key (\<lambda>row. row\<lparr>link_archived := True\<rparr>) now of
                    None \<Rightarrow> (ServerError, w1)
                  | Some t \<Rightarrow> (Ok ''Link archived'', w1\<lparr>links := t\<rparr>))))"

text \<open>The responses with status 410.\<close>

fun is_Gone :: "response \<Rightarrow> bool" where
  "is_Gone (Gone message) = True"
| "is_Gone _ = False"

subsection \<open>Sequences of requests\<close>

text \<open>
  A later resolution of a key: the instant of the request and whether the client is a bot.
  \<open>resolutions\<close> serves them one after the other, each followed by its click worker, and
  collects the responses.
\<close>

fun resolutions :: "(int \<times> bool) list \<Rightarrow> world \<Rightarrow> jsstring \<Rightarrow> response list" where
  "resolutions [] w key = []"
| "resolutions ((now, is_bot) # rest) w key =
     (case handleGetLink now is_bot w key of
        (resp, w', dispatched) \<Rightarrow> resp # resolutions rest (run_worker now w' dispatched) key)"

subsection \<open>Resolved records\<close>

text \<open>
  The lookup of \<open>handleGetLink\<close> resolves a key to a record when the cache holds the JSON
  text of that record, or when the cache has no live entry and the table holds the record.
\<close>

definition resolves_to :: "int \<Rightarrow> world \<Rightarrow> jsstring \<Rightarrow> link \<Rightarrow> bool" where
  "resolves_to now w key row \<longleftrightarrow>
     redis_get now (cache w) key = Some (JSON_stringify (object_of_row row)) \<or>
     redis_get now (cache w) key = None \<and> links w key = Some row"

subsection \<open>Example data\<close>

text \<open>Concrete rows, worlds and requests at which the theorems below are evaluated.\<close>

definition example_row :: link where
  "example_row =
     \<lparr>link_id = ascii ''id1'', link_key = ascii ''abc'', link_url = ascii ''https://example.com'',
      link_archived = False, link_expiresAt = None, link_title = None,
      link_description = None, link_image = None, link_userId = None, link_clicks = 7,
      link_createdAt = 1000, link_updatedAt = 1000\<rparr>"

definition expiring_row :: "int \<Rightarrow> link" where
  "expiring_row instant = example_row\<lparr>link_expiresAt := Some instant\<rparr>"

definition archived_row :: link where
  "archived_row = example_row\<lparr>link_archived := True\<rparr>"

definition world_with :: "link \<Rightarrow> world" where
  "world_with row = \<lparr>links = [ascii ''abc'' \<mapsto> row], cache = Map.empty\<rparr>"

definition empty_world :: world where
  "empty_world = \<lparr>links = Map.empty, cache = Map.empty\<rparr>"

definition example_world :: world where
  "example_world = \<lparr>links = [ascii ''abc'' \<mapsto> example_row], cache = Map.empty\<rparr>"

definition example_request :: "jsstring \<Rightarrow> create_request" where
  "example_request key =
     \<lparr>req_url = ascii ''https://example.com'', req_key = key, req_expiresAt = None,
      req_userId = None\<rparr>"

section \<open>Properties of \<open>truncate\<close>\<close>

lemma length_ascii: "length (ascii s) = length s"
  by (simp add: ascii_def)

text \<open>
  Claim C9. For every string \<open>s\<close> and bound \<open>n\<close> (120 for the title, 240 for the
  description, and any other bound of at least 3): \<open>truncate\<close> returns its argument
  unchanged when it is \<open>null\<close> (or \<open>undefined\<close>), empty, or at most \<open>n\<close> code units long;
  otherwise it returns the first \<open>n - 3\<close> code units of \<open>s\<close> followed by three dots, which
  is the slice of length \<open>n\<close> with its last three code units replaced by the dots, and has
  length exactly \<open>n\<close>.
\<close>

theorem truncate_bounds:
  "truncate_str Null n = Null \<and> truncate_str Undefined n = Undefined \<and>
   truncate_str (Val []) n = Val [] \<and>
   (int (length s) \<le> n \<longrightarrow> truncate_str (Val s) n = Val s) \<and>
   (3 \<le> n \<and> n < int (length s) \<longrightarrow>
      truncate_str (Val s) n = Val (take (nat (n - 3)) s @ ascii ''...'') \<and>
      take (nat (n - 3)) s @ ascii ''...'' = take (nat n - 3) (take (nat n) s) @ ascii ''...'' \<and>
      int (length (take (nat (n - 3)) s @ ascii ''...'')) = n)"
proof -
  have long: "truncate_str (Val s) n = Val (take (nat (n - 3)) s @ ascii ''...'')"
    if "3 \<le> n" "n < int (length s)"
  proof -
    from that have "s \<noteq> []" by auto
    moreover from that have "slice_from_start s (n - 3) = take (nat (n - 3)) s"
      by (simp add: slice_from_start_def Let_def min_def)
    ultimately show ?thesis using that by (simp add: truncate_str_def)
  qed
  have same: "take (nat (n - 3)) s = take (nat n - 3) (take (nat n) s)" if "3 \<le> n"
  proof -
    from that have "nat (n - 3) = nat n - 3" by simp
    then show ?thesis by (simp add: min_def)
  qed
  have len: "int (length (take (nat (n - 3)) s @ ascii ''...'')) = n"
    if "3 \<le> n" "n < int (length s)"
    using that by (simp add: length_ascii)
  show ?thesis
    using long same len by (auto simp: truncate_str_def)
qed

theorem truncate_bounds_witness:
  "(3::int) \<le> 120 \<and> 120 < int (length (replicate 121 (0x61 :: code_unit))) \<and>
   int (length (replicate 3 (0x61 :: code_unit))) \<le> 120 \<and>
   truncate_str (Val (replicate 3 0x61)) 120 = Val (replicate 3 0x61) \<and>
   truncate_str (Val (replicate 121 0x61)) 120 = Val (replicate 117 0x61 @ ascii ''...'')"
  using truncate_bounds [of 120 "replicate 121 0x61"] truncate_bounds [of 120 "replicate 3 0x61"]
  by simp

section \<open>Properties of \<open>processKey\<close>\<close>

lemma pair_not_in_key_class: "\<not> in_key_class (surrogate_pair_value u v)"
  by (simp add: in_key_class_def surrogate_pair_value_def)

lemma valid_tail: "validKeyRegex_test (u # us) \<Longrightarrow> validKeyRegex_test us"
proof (cases us)
  case Nil
  then show ?thesis by (simp add: validKeyRegex_test_def)
next
  case (Cons v rest)
  assume a: "validKeyRegex_test (u # us)"
  show ?thesis
  proof (cases "is_high_surrogate u \<and> is_low_surrogate v")
    case True
    with a Cons show ?thesis by (simp add: validKeyRegex_test_def pair_not_in_key_class)
  next
    case False
    with a Cons show ?thesis by (simp add: validKeyRegex_test_def)
  qed
qed

lemma valid_dropWhile: "validKeyRegex_test us \<Longrightarrow> validKeyRegex_test (dropWhile P us)"
proof (induction us)
  case Nil
  then show ?case by simp
next
  case (Cons u us)
  from Cons.prems have "validKeyRegex_test us" by (rule valid_tail)
  then have "validKeyRegex_test (dropWhile P us)" by (rule Cons.IH)
  with Cons.prems show ?case by simp
qed

lemma valid_Cons_iff:
  "validKeyRegex_test (u # v # rest) \<longleftrightarrow>
     \<not> (is_high_surrogate u \<and> is_low_surrogate v) \<and> in_key_class (unat u) \<and>
     validKeyRegex_test (v # rest)"
  by (simp add: validKeyRegex_test_def pair_not_in_key_class)

lemma valid_single: "validKeyRegex_test [u] \<longleftrightarrow> in_key_class (unat u)"
  by (simp add: validKeyRegex_test_def)

lemma valid_snoc: "validKeyRegex_test (us @ [y]) \<Longrightarrow> validKeyRegex_test us"
proof (induction us)
  case Nil
  show ?case by (simp add: validKeyRegex_test_def)
next
  case (Cons u us)
  show ?case
  proof (cases us)
    case Nil
    with Cons.prems show ?thesis by (simp add: valid_Cons_iff valid_single)
  next
    case (Cons v rest)
    with Cons.prems have a: "validKeyRegex_test (u # v # (rest @ [y]))" by simp
    then have "validKeyRegex_test (v # (rest @ [y]))" by (simp only: valid_Cons_iff)
    with Cons have "validKeyRegex_test (us @ [y])" by simp
    then have "validKeyRegex_test us" by (rule Cons.IH)
    with a Cons show ?thesis by (simp only: valid_Cons_iff) simp
  qed
qed

lemma valid_prefix: "validKeyRegex_test (us @ vs) \<Longrightarrow> validKeyRegex_test us"
proof (induction vs rule: rev_induct)
  case Nil
  then show ?case by simp
next
  case (snoc y ys)
  from snoc.prems have "validKeyRegex_test ((us @ ys) @ [y])" by simp
  then have "validKeyRegex_test (us @ ys)" by (rule valid_snoc)
  then show ?case by (rule snoc.IH)
qed

lemma rstrip_decomp: "xs = rev (dropWhile P (rev xs)) @ rev (takeWhile P (rev xs))"
proof -
  have "rev xs = takeWhile P (rev xs) @ dropWhile P (rev xs)" by simp
  then have "rev (rev xs) = rev (takeWhile P (rev xs) @ dropWhile P (rev xs))" by (rule arg_cong)
  then show ?thesis by (simp only: rev_rev_ident rev_append)
qed

lemma valid_strip: "validKeyRegex_test key \<Longrightarrow> validKeyRegex_test (strip_slashes key)"
proof -
  assume "validKeyRegex_test key"
  then have v: "validKeyRegex_test (dropWhile is_slash key)" by (rule valid_dropWhile)
  have "dropWhile is_slash key =
          strip_slashes key @ rev (takeWhile is_slash (rev (dropWhile is_slash key)))"
    unfolding strip_slashes_def by (rule rstrip_decomp)
  with v have "validKeyRegex_test
     (strip_slashes key @ rev (takeWhile is_slash (rev (dropWhile is_slash key))))" by simp
  then show ?thesis by (rule valid_prefix)
qed

lemma takeWhile_slash: "takeWhile is_slash xs = replicate (length (takeWhile is_slash xs)) 0x2F"
  by (induction xs) (simp_all add: is_slash_def)

lemma strip_decomp:
  "key = replicate (length (takeWhile is_slash key)) 0x2F @ strip_slashes key @
         replicate (length (takeWhile is_slash (rev (dropWhile is_slash key)))) 0x2F"
proof -
  let ?d = "dropWhile is_slash key"
  let ?t = "takeWhile is_slash (rev ?d)"
  have 1: "key = takeWhile is_slash key @ ?d" by simp
  have 2: "?d = strip_slashes key @ rev ?t"
    unfolding strip_slashes_def by (rule rstrip_decomp)
  have "?t = replicate (length ?t) 0x2F" by (rule takeWhile_slash)
  then have 3: "rev ?t = replicate (length ?t) 0x2F" by (metis rev_replicate)
  have 4: "takeWhile is_slash key = replicate (length (takeWhile is_slash key)) 0x2F"
    by (rule takeWhile_slash)
  from 1 2 have "key = takeWhile is_slash key @ strip_slashes key @ rev ?t" by simp
  with 3 4 show ?thesis by metis
qed

lemma strip_ends:
  assumes "strip_slashes key \<noteq> []"
  shows "\<not> is_slash (hd (strip_slashes key))" and "\<not> is_slash (last (strip_slashes key))"
proof -
  let ?d = "dropWhile is_slash key"
  let ?e = "dropWhile is_slash (rev ?d)"
  from assms have e: "?e \<noteq> []" by (simp add: strip_slashes_def)
  then have "\<not> is_slash (hd ?e)" by (rule hd_dropWhile)
  with e show "\<not> is_slash (last (strip_slashes key))"
    by (simp add: strip_slashes_def last_rev)
  from e have d: "?d \<noteq> []" by (metis dropWhile.simps(1) rev.simps(1))
  then have nd: "\<not> is_slash (hd ?d)" by (rule hd_dropWhile)
  have "?d = strip_slashes key @ rev (takeWhile is_slash (rev ?d))"
    unfolding strip_slashes_def by (rule rstrip_decomp)
  with assms have "hd ?d = hd (strip_slashes key)" by (metis hd_append2)
  with nd show "\<not> is_slash (hd (strip_slashes key))" by simp
qed

lemma strip_fixed:
  assumes "xs \<noteq> []" "\<not> is_slash (hd xs)" "\<not> is_slash (last xs)"
  shows "strip_slashes xs = xs"
proof -
  from assms have 1: "dropWhile is_slash xs = xs" by (cases xs) simp_all
  from assms have "rev xs \<noteq> []" "\<not> is_slash (hd (rev xs))" by (simp_all add: hd_rev)
  then have "dropWhile is_slash (rev xs) = rev xs" by (cases "rev xs") simp_all
  with 1 show ?thesis by (simp add: strip_slashes_def)
qed

lemma strip_idem: "strip_slashes (strip_slashes key) = strip_slashes key"
proof (cases "strip_slashes key = []")
  case True
  have "strip_slashes [] = []" by (simp add: strip_slashes_def)
  with True show ?thesis by simp
next
  case False
  then show ?thesis by (intro strip_fixed strip_ends)
qed

text \<open>
  Claim C2, as the specification words the allowed set: "code points above the
  printable-ASCII threshold" has no upper bound. The key made of the surrogate pair of
  U+1F600 consists of one such code point and has no slash to strip, yet \<open>processKey\<close>
  rejects it: the character class ends at U+FFFF.
\<close>

theorem processKey_astral_counterexample:
  "list_all spec_allowed_code_point (code_points [0xD83D, 0xDE00]) \<and>
   strip_slashes [0xD83D, 0xDE00] = [0xD83D, 0xDE00] \<and>
   processKey [0xD83D, 0xDE00] = None"
  by (simp add: spec_allowed_code_point_def surrogate_pair_value_def is_high_surrogate_def
      is_low_surrogate_def strip_slashes_def is_slash_def processKey_def validKeyRegex_test_def
      in_key_class_def)

text \<open>
  Claim C2, amended: the allowed set is the character class of the source (digits, ASCII
  letters, the code points U+0080 to U+FFFF, \<open>/\<close> and \<open>-\<close>). A key with a code point
  outside it is rejected. Every other key is answered with the key stripped of its leading
  and trailing slashes, or rejected if nothing is left; the stripped key is the original
  without a run of slashes at either end, and neither starts nor ends with a slash. On
  every accepted key \<open>processKey\<close> is idempotent.
\<close>

theorem processKey_normalizes:
  "(\<not> list_all in_key_class (code_points key) \<longrightarrow> processKey key = None) \<and>
   (list_all in_key_class (code_points key) \<longrightarrow>
      processKey key = (if strip_slashes key = [] then None else Some (strip_slashes key))) \<and>
   (\<exists>n m. key = replicate n 0x2F @ strip_slashes key @ replicate m 0x2F) \<and>
   (strip_slashes key \<noteq> [] \<longrightarrow>
      hd (strip_slashes key) \<noteq> 0x2F \<and> last (strip_slashes key) \<noteq> 0x2F) \<and>
   (\<forall>k. processKey key = Some k \<longrightarrow> processKey k = Some k)"
proof (intro conjI)
  show "\<not> list_all in_key_class (code_points key) \<longrightarrow> processKey key = None"
    by (simp add: processKey_def validKeyRegex_test_def)
  show "list_all in_key_class (code_points key) \<longrightarrow>
      processKey key = (if strip_slashes key = [] then None else Some (strip_slashes key))"
    by (simp add: processKey_def validKeyRegex_test_def)
  show "\<exists>n m. key = replicate n 0x2F @ strip_slashes key @ replicate m 0x2F"
    using strip_decomp by blast
  show "strip_slashes key \<noteq> [] \<longrightarrow>
      hd (strip_slashes key) \<noteq> 0x2F \<and> last (strip_slashes key) \<noteq> 0x2F"
    using strip_ends [of key] by (simp add: is_slash_def)
  show "\<forall>k. processKey key = Some k \<longrightarrow> processKey k = Some k"
  proof (intro allI impI)
    fix k assume "processKey key = Some k"
    then have v: "validKeyRegex_test key" and k: "k = strip_slashes key" and ne: "k \<noteq> []"
      by (auto simp: processKey_def Let_def split: if_splits)
    from v k have "validKeyRegex_test k" by (simp add: valid_strip)
    moreover from k have "strip_slashes k = k" by (simp add: strip_idem)
    ultimately show "processKey k = Some k" using ne by (simp add: processKey_def)
  qed
qed

theorem processKey_normalizes_witness:
  "list_all in_key_class (code_points (ascii ''/a-b/'')) \<and>
   \<not> list_all in_key_class (code_points (ascii ''a b'')) \<and>
   strip_slashes (ascii ''/a-b/'') = ascii ''a-b'' \<and>
   processKey (ascii ''/a-b/'') = Some (ascii ''a-b'') \<and>
   processKey (ascii ''a-b'') = Some (ascii ''a-b'') \<and>
   processKey (ascii ''a b'') = None"
proof -
  have v: "list_all in_key_class (code_points (ascii ''/a-b/''))"
    by (simp add: ascii_def in_key_class_def is_high_surrogate_def is_low_surrogate_def)
  have n: "\<not> list_all in_key_class (code_points (ascii ''a b''))"
    by (simp add: ascii_def in_key_class_def is_high_surrogate_def is_low_surrogate_def)
  have s: "strip_slashes (ascii ''/a-b/'') = ascii ''a-b''"
    by (simp add: ascii_def strip_slashes_def is_slash_def)
  from processKey_normalizes [of "ascii ''/a-b/''"] v s
  have p: "processKey (ascii ''/a-b/'') = Some (ascii ''a-b'')"
    by (simp add: ascii_def)
  with processKey_normalizes [of "ascii ''/a-b/''"]
  have "processKey (ascii ''a-b'') = Some (ascii ''a-b'')" by blast
  moreover from processKey_normalizes [of "ascii ''a b''"] n
  have "processKey (ascii ''a b'') = None" by blast
  ultimately show ?thesis using v n s p by blast
qed

section \<open>Properties of the click update\<close>

lemma link_update_Some:
  "t k = Some row \<Longrightarrow> link_update t k change now = Some (t(k \<mapsto> (change row)\<lparr>link_updatedAt := now\<rparr>))"
  by (simp add: link_update_def)

lemma handleGetLink_links: "handleGetLink now is_bot w key = (resp, w', d) \<Longrightarrow> links w' = links w"
  by (auto simp: handleGetLink_def redis_set_def split: if_splits option.splits prod.splits)

lemma handleGetLink_dispatch_key:
  "handleGetLink now is_bot w key = (resp, w', Some wd) \<Longrightarrow> wd_key wd = key"
  by (auto simp: handleGetLink_def respond_with_link_def redis_set_def
      split: if_splits option.splits prod.splits)

lemma handleGetLink_miss_payload:
  "handleGetLink now is_bot w key = (resp, w', Some wd) \<Longrightarrow> links w key = Some row \<Longrightarrow>
   redis_get now (cache w) key = None \<Longrightarrow> wd_clicks wd = Fin (link_clicks row + 1)"
  by (auto simp: handleGetLink_def respond_with_link_def redis_set_def object_of_row_def
      split: if_splits option.splits prod.splits)

lemma example_get:
  "handleGetLink 5000 False example_world (ascii ''abc'') =
     (Redirect (Val (ascii ''https://example.com'')),
      example_world\<lparr>cache := [ascii ''abc'' \<mapsto>
         \<lparr>entry_value = JSON_stringify (object_of_row example_row), entry_exat = None\<rparr>]\<rparr>,
      Some \<lparr>wd_key = ascii ''abc'', wd_clicks = Fin 8\<rparr>)"
  by (simp add: handleGetLink_def example_world_def redis_get_def redis_set_def
      respond_with_link_def object_of_row_def example_row_def ascii_def)

lemma example_links: "links example_world (ascii ''abc'') = Some example_row"
  by (simp add: example_world_def)

text \<open>
  Claim C4. For every click update that \<open>handleGetLink\<close> dispatches for a stored link, the
  worker's single update adds exactly 1 to the stored \<open>clicks\<close> of that link (and stamps
  \<open>updatedAt\<close>), whatever \<open>clicks\<close> value the dispatched \<open>workerData\<close> carries: replacing
  the payload's \<open>clicks\<close> by any other value gives the same table. On a cache miss the
  payload carries the stored count plus 1.
\<close>

theorem click_update_increments_by_one:
  "handleGetLink now is_bot w key = (resp, w', Some wd) \<Longrightarrow> links w key = Some row \<Longrightarrow>
   updateLinkClicksWorker later (links w') wd =
     Some ((links w)(key \<mapsto> row\<lparr>link_clicks := link_clicks row + 1, link_updatedAt := later\<rparr>)) \<and>
   updateLinkClicksWorker later (links w') (wd\<lparr>wd_clicks := payload\<rparr>) =
     updateLinkClicksWorker later (links w') wd \<and>
   (redis_get now (cache w) key = None \<longrightarrow> wd_clicks wd = Fin (link_clicks row + 1))"
proof (intro conjI)
  assume get: "handleGetLink now is_bot w key = (resp, w', Some wd)"
    and row: "links w key = Some row"
  from get have l: "links w' = links w" by (rule handleGetLink_links)
  from get have k: "wd_key wd = key" by (rule handleGetLink_dispatch_key)
  from l k row show "updateLinkClicksWorker later (links w') wd =
     Some ((links w)(key \<mapsto> row\<lparr>link_clicks := link_clicks row + 1, link_updatedAt := later\<rparr>))"
    by (simp add: updateLinkClicksWorker_def link_update_Some)
  show "updateLinkClicksWorker later (links w') (wd\<lparr>wd_clicks := payload\<rparr>) =
     updateLinkClicksWorker later (links w') wd"
    by (simp add: updateLinkClicksWorker_def)
  from get row show "redis_get now (cache w) key = None \<longrightarrow> wd_clicks wd = Fin (link_clicks row + 1)"
    by (simp add: handleGetLink_miss_payload)
qed

theorem click_update_increments_by_one_witness:
  "handleGetLink 5000 False example_world (ascii ''abc'') =
     (Redirect (Val (ascii ''https://example.com'')),
      example_world\<lparr>cache := [ascii ''abc'' \<mapsto>
         \<lparr>entry_value = JSON_stringify (object_of_row example_row), entry_exat = None\<rparr>]\<rparr>,
      Some \<lparr>wd_key = ascii ''abc'', wd_clicks = Fin 8\<rparr>) \<and>
   links example_world (ascii ''abc'') = Some example_row \<and>
   updateLinkClicksWorker 6000 (links example_world) \<lparr>wd_key = ascii ''abc'', wd_clicks = Fin 8\<rparr> =
     Some [ascii ''abc'' \<mapsto> example_row\<lparr>link_clicks := 8, link_updatedAt := 6000\<rparr>] \<and>
   updateLinkClicksWorker 6000 (links example_world) \<lparr>wd_key = ascii ''abc'', wd_clicks = NaN\<rparr> =
     Some [ascii ''abc'' \<mapsto> example_row\<lparr>link_clicks := 8, link_updatedAt := 6000\<rparr>]"
  using click_update_increments_by_one [OF example_get example_links, of 6000 NaN]
    example_get example_links
  by (simp add: example_world_def example_row_def)

section \<open>Properties of link creation\<close>

lemma reserved_accepted: "key \<in> set reservedKeys \<Longrightarrow> key \<noteq> [] \<and> processKey key \<noteq> None"
  by (auto simp: reservedKeys_def ascii_def processKey_def validKeyRegex_test_def in_key_class_def
      is_high_surrogate_def is_low_surrogate_def strip_slashes_def is_slash_def)

text \<open>
  Claim C8. A creation request that carries a URL and whose key is one of the reserved
  keys \<open>blog\<close>, \<open>pricing\<close>, \<open>privacy\<close> is answered with Conflict, and the table and the
  cache are left as they were, whether or not the table holds a row with that key.
\<close>

theorem reserved_key_conflict:
  "req_url req \<noteq> [] \<Longrightarrow> req_key req \<in> set reservedKeys \<Longrightarrow>
   handleCreateLink now new_id fetched w req = (Conflict ''Key already exists!'', w)"
  using reserved_accepted [of "req_key req"]
  by (auto simp: handleCreateLink_def checkIfKeyExists_def Let_def)

theorem reserved_key_conflict_witness:
  "req_url (example_request (ascii ''blog'')) \<noteq> [] \<and>
   req_key (example_request (ascii ''blog'')) \<in> set reservedKeys \<and>
   links empty_world (ascii ''blog'') = None \<and>
   handleCreateLink 0 (ascii ''id2'') (Metadata Undefined) empty_world (example_request (ascii ''blog'')) =
     (Conflict ''Key already exists!'', empty_world)"
proof -
  have u: "req_url (example_request (ascii ''blog'')) \<noteq> []"
    by (simp add: example_request_def ascii_def)
  have k: "req_key (example_request (ascii ''blog'')) \<in> set reservedKeys"
    by (simp add: example_request_def reservedKeys_def)
  have "links empty_world (ascii ''blog'') = None" by (simp add: empty_world_def)
  with u k reserved_key_conflict [OF u k] show ?thesis by simp
qed

text \<open>
  Claim C6 says that an accepted creation persists and caches the link under the normalized
  key. The handler only tests the result of \<open>processKey\<close> and goes on with the key of the
  request: the request with key \<open>/abc/\<close>, which \<open>processKey\<close> normalizes to \<open>abc\<close>, is
  accepted, and both the row and the cache entry are stored under \<open>/abc/\<close>; nothing is
  stored under \<open>abc\<close>.
\<close>

theorem create_keeps_raw_key:
  "processKey (ascii ''/abc/'') = Some (ascii ''abc'') \<and>
   handleCreateLink 1000 (ascii ''id1'') (Metadata Undefined) empty_world
       (example_request (ascii ''/abc/'')) =
     (Created ''Link created!'',
      \<lparr>links = [ascii ''/abc/'' \<mapsto> example_row\<lparr>link_key := ascii ''/abc/'', link_clicks := 0\<rparr>],
       cache = [ascii ''/abc/'' \<mapsto>
          \<lparr>entry_value = JSON_stringify
             (created_cache_object (ascii ''https://example.com'') Null Null Null),
           entry_exat = None\<rparr>]\<rparr>) \<and>
   [ascii ''/abc/'' \<mapsto> example_row\<lparr>link_key := ascii ''/abc/'', link_clicks := 0\<rparr>] (ascii ''abc'') = None"
proof -
  have p: "processKey (ascii ''/abc/'') = Some (ascii ''abc'')"
    by (simp add: ascii_def processKey_def validKeyRegex_test_def in_key_class_def
        is_high_surrogate_def is_low_surrogate_def strip_slashes_def is_slash_def)
  have m: "title_of Undefined = Undefined" "description_of Undefined = Undefined"
    "first_image (images_of Undefined) = Undefined"
    by (simp_all add: title_of_def description_of_def images_of_def first_image_def)
  have t: "or_null (truncate_str Undefined 120) = Null"
    "or_null (truncate_str (or_empty Undefined) 240) = Null" "or_null Undefined = Null"
    by (simp_all add: or_null_def truncate_str_def or_empty_def)
  have k: "ascii ''/abc/'' \<noteq> []" "ascii ''https://example.com'' \<noteq> []"
    "ascii ''/abc/'' \<notin> set reservedKeys" "ascii ''abc'' \<noteq> ascii ''/abc/''"
    by (simp_all add: ascii_def reservedKeys_def)
  show ?thesis
    using p k
    by (simp add: handleCreateLink_def example_request_def empty_world_def checkIfKeyExists_def
        m t link_create_def redis_set_def redis_get_def example_row_def Let_def)
qed

text \<open>In general, an accepted creation stores the row under the key of the request.\<close>

lemma create_stores_request_key:
  "handleCreateLink now new_id fetched w req = (Created message, w') \<Longrightarrow>
   \<exists>row. links w' (req_key req) = Some row \<and> link_key row = req_key req \<and>
         links w' = (links w)(req_key req \<mapsto> row)"
  by (auto simp: handleCreateLink_def Let_def link_create_def
      split: if_splits metadata_result.splits option.splits)

section \<open>Properties of the preview page\<close>

lemma example_world_key: "ascii ''abc'' \<noteq> []"
  by (simp add: ascii_def)

text \<open>Fields that are present are rendered into their tags as they are.\<close>

lemma preview_of_present_fields:
  "generateLinkPreview (Val t) (Val d) (Val i) =
     nl @ ascii ''      <html>'' @ nl @ ascii ''      <head>'' @ nl @
     ascii ''        '' @ meta_tag ''og:title'' t @ nl @
     ascii ''        '' @ meta_tag ''og:description'' d @ nl @
     ascii ''        '' @ meta_tag ''og:image'' i @ nl @
     ascii ''      </head>'' @ nl @ ascii ''    </html>'' @ nl @ ascii ''      ''"
  by (simp add: generateLinkPreview_def)

text \<open>
  Claim C5 says that a field the record lacks is replaced by its default in the preview.
  A record without title, description and image holds \<open>null\<close> for them, the defaults of
  \<open>generateLinkPreview\<close> apply to \<open>undefined\<close> only, and the page served to a bot carries
  the text \<open>null\<close> in all three tags. The defaults appear only when the function is called
  without arguments.
\<close>

theorem bot_preview_renders_null:
  "handleGetLink 5000 True example_world (ascii ''abc'') =
     (BotPreview
        (nl @ ascii ''      <html>'' @ nl @ ascii ''      <head>'' @ nl @
         ascii ''        '' @ meta_tag ''og:title'' (ascii ''null'') @ nl @
         ascii ''        '' @ meta_tag ''og:description'' (ascii ''null'') @ nl @
         ascii ''        '' @ meta_tag ''og:image'' (ascii ''null'') @ nl @
         ascii ''      </head>'' @ nl @ ascii ''    </html>'' @ nl @ ascii ''      ''),
      example_world\<lparr>cache := [ascii ''abc'' \<mapsto>
         \<lparr>entry_value = JSON_stringify (object_of_row example_row), entry_exat = None\<rparr>]\<rparr>,
      None) \<and>
   link_title example_row = None \<and> link_description example_row = None \<and>
   link_image example_row = None \<and>
   generateLinkPreview Undefined Undefined Undefined =
     nl @ ascii ''      <html>'' @ nl @ ascii ''      <head>'' @ nl @
     ascii ''        '' @ meta_tag ''og:title'' (ascii ''Link Preview'') @ nl @
     ascii ''        '' @ meta_tag ''og:description'' (ascii ''Link Description'') @ nl @
     ascii ''        '' @ meta_tag ''og:image'' (ascii ''#'') @ nl @
     ascii ''      </head>'' @ nl @ ascii ''    </html>'' @ nl @ ascii ''      ''"
proof -
  have g: "generateLinkPreview Null Null Null =
     nl @ ascii ''      <html>'' @ nl @ ascii ''      <head>'' @ nl @
     ascii ''        '' @ meta_tag ''og:title'' (ascii ''null'') @ nl @
     ascii ''        '' @ meta_tag ''og:description'' (ascii ''null'') @ nl @
     ascii ''        '' @ meta_tag ''og:image'' (ascii ''null'') @ nl @
     ascii ''      </head>'' @ nl @ ascii ''    </html>'' @ nl @ ascii ''      ''"
    by (simp add: generateLinkPreview_def)
  have r: "respond_with_link 5000 True (ascii ''abc'') (object_of_row example_row) =
      (BotPreview (generateLinkPreview Null Null Null), None)"
    by (simp add: respond_with_link_def object_of_row_def example_row_def)
  have "handleGetLink 5000 True example_world (ascii ''abc'') =
     (BotPreview (generateLinkPreview Null Null Null),
      example_world\<lparr>cache := [ascii ''abc'' \<mapsto>
         \<lparr>entry_value = JSON_stringify (object_of_row example_row), entry_exat = None\<rparr>]\<rparr>,
      None)"
    using example_world_key
    by (simp add: handleGetLink_def example_world_def redis_get_def redis_set_def r)
  moreover have "generateLinkPreview Undefined Undefined Undefined =
     nl @ ascii ''      <html>'' @ nl @ ascii ''      <head>'' @ nl @
     ascii ''        '' @ meta_tag ''og:title'' (ascii ''Link Preview'') @ nl @
     ascii ''        '' @ meta_tag ''og:description'' (ascii ''Link Description'') @ nl @
     ascii ''        '' @ meta_tag ''og:image'' (ascii ''#'') @ nl @
     ascii ''      </head>'' @ nl @ ascii ''    </html>'' @ nl @ ascii ''      ''"
    by (simp add: generateLinkPreview_def)
  ultimately show ?thesis by (simp add: g example_row_def)
qed

section \<open>Properties of resolution\<close>

lemma get_hit:
  "key \<noteq> [] \<Longrightarrow> redis_get now (cache w) key = Some text \<Longrightarrow>
   handleGetLink now is_bot w key =
     (fst (respond_with_link now is_bot key (JSON_parse text)), w,
      snd (respond_with_link now is_bot key (JSON_parse text)))"
  by (simp add: handleGetLink_def split: prod.splits)

lemma get_miss:
  "key \<noteq> [] \<Longrightarrow> redis_get now (cache w) key = None \<Longrightarrow> links w key = Some row \<Longrightarrow>
   handleGetLink now is_bot w key =
     (fst (respond_with_link now is_bot key (object_of_row row)),
      w\<lparr>cache := (cache w)(key \<mapsto>
          \<lparr>entry_value = JSON_stringify (object_of_row row), entry_exat = None\<rparr>)\<rparr>,
      snd (respond_with_link now is_bot key (object_of_row row)))"
  by (simp add: handleGetLink_def redis_set_def split: prod.splits)

lemma parse_stringify: "JSON_parse (JSON_stringify obj) = obj"
  by (simp add: JSON_stringify_def)

lemma respond_row_Gone:
  "is_Gone (fst (respond_with_link now is_bot key (object_of_row row))) \<longleftrightarrow>
     link_archived row \<or> (\<exists>instant. link_expiresAt row = Some instant \<and> instant < now)"
  by (cases "link_expiresAt row") (simp_all add: respond_with_link_def object_of_row_def)

lemma respond_row_not_Gone:
  "\<not> is_Gone (fst (respond_with_link now is_bot key (object_of_row row))) \<Longrightarrow>
   fst (respond_with_link now is_bot key (object_of_row row)) =
     (if is_bot
      then BotPreview (generateLinkPreview (of_option (link_title row))
             (of_option (link_description row)) (of_option (link_image row)))
      else Redirect (Val (link_url row)))"
  by (cases "link_expiresAt row")
    (simp_all add: respond_with_link_def object_of_row_def split: if_splits)

lemma get_resolved:
  assumes "key \<noteq> []" "resolves_to now w key row"
  shows "fst (handleGetLink now is_bot w key) =
           fst (respond_with_link now is_bot key (object_of_row row))"
  using assms unfolding resolves_to_def
  by (auto simp: get_hit get_miss parse_stringify)

text \<open>
  Claim C1, as stated: a redirect is possible only when \<open>expiresAt\<close> is \<open>null\<close> or in the
  future. A record that expires at the very instant of the request is not in the future,
  and is redirected: the gate compares with a strict "earlier than".
\<close>

theorem gone_boundary_counterexample:
  "link_archived (expiring_row 5000) = False \<and>
   link_expiresAt (expiring_row 5000) = Some 5000 \<and> \<not> (5000 < (5000::int)) \<and>
   resolves_to 5000 (world_with (expiring_row 5000)) (ascii ''abc'') (expiring_row 5000) \<and>
   fst (handleGetLink 5000 False (world_with (expiring_row 5000)) (ascii ''abc'')) =
     Redirect (Val (ascii ''https://example.com''))"
  using example_world_key
  by (simp add: resolves_to_def world_with_def redis_get_def redis_set_def handleGetLink_def
      respond_with_link_def object_of_row_def expiring_row_def example_row_def)

text \<open>
  Claim C1, amended. For every record the lookup resolves the key to, the response is Gone
  exactly when the record is archived or its \<open>expiresAt\<close> is set and earlier than the
  instant of the request; so an archived record is Gone whatever its \<open>expiresAt\<close>. Every
  other response is the preview page (bot) or the redirect to the record's URL, and is
  given only when \<open>archived\<close> is false and \<open>expiresAt\<close> is \<open>null\<close> or not earlier than the
  instant of the request.
\<close>

theorem gone_iff_inert:
  assumes "key \<noteq> []" and "resolves_to now w key row"
  shows "(is_Gone (fst (handleGetLink now is_bot w key)) \<longleftrightarrow>
            link_archived row \<or> (\<exists>instant. link_expiresAt row = Some instant \<and> instant < now)) \<and>
         (\<not> is_Gone (fst (handleGetLink now is_bot w key)) \<longrightarrow>
            fst (handleGetLink now is_bot w key) =
              (if is_bot
               then BotPreview (generateLinkPreview (of_option (link_title row))
                      (of_option (link_description row)) (of_option (link_image row)))
               else Redirect (Val (link_url row))) \<and>
            \<not> link_archived row \<and>
            (link_expiresAt row = None \<or> (\<exists>instant. link_expiresAt row = Some instant \<and> now \<le> instant)))"
proof -
  let ?r = "fst (respond_with_link now is_bot key (object_of_row row))"
  have eq: "fst (handleGetLink now is_bot w key) = ?r"
    using assms by (rule get_resolved)
  have g: "is_Gone ?r \<longleftrightarrow>
      link_archived row \<or> (\<exists>instant. link_expiresAt row = Some instant \<and> instant < now)"
    by (rule respond_row_Gone)
  have n: "\<not> is_Gone ?r \<longrightarrow> \<not> link_archived row \<and>
      (link_expiresAt row = None \<or> (\<exists>instant. link_expiresAt row = Some instant \<and> now \<le> instant))"
    unfolding g by (cases "link_expiresAt row") auto
  show ?thesis
    unfolding eq using g n respond_row_not_Gone [of now is_bot key row] by blast
qed

theorem gone_iff_inert_witness:
  "ascii ''abc'' \<noteq> [] \<and>
   resolves_to 5000 (world_with archived_row) (ascii ''abc'') archived_row \<and>
   resolves_to 5000 (world_with (expiring_row 4999)) (ascii ''abc'') (expiring_row 4999) \<and>
   resolves_to 5000 (world_with example_row) (ascii ''abc'') example_row \<and>
   is_Gone (fst (handleGetLink 5000 False (world_with archived_row) (ascii ''abc''))) \<and>
   is_Gone (fst (handleGetLink 5000 False (world_with (expiring_row 4999)) (ascii ''abc''))) \<and>
   fst (handleGetLink 5000 False (world_with example_row) (ascii ''abc'')) =
     Redirect (Val (ascii ''https://example.com''))"
proof -
  have r: "resolves_to 5000 (world_with row) (ascii ''abc'') row" for row
    by (simp add: resolves_to_def world_with_def redis_get_def)
  have a: "link_archived archived_row" "link_expiresAt (expiring_row 4999) = Some 4999"
    "\<not> link_archived example_row" "link_expiresAt example_row = None"
    "link_url example_row = ascii ''https://example.com''"
    by (simp_all add: archived_row_def expiring_row_def example_row_def)
  from gone_iff_inert [OF example_world_key r [of archived_row], of False] a
  have 1: "is_Gone (fst (handleGetLink 5000 False (world_with archived_row) (ascii ''abc'')))"
    by simp
  from gone_iff_inert [OF example_world_key r [of "expiring_row 4999"], of False] a
  have 2: "is_Gone (fst (handleGetLink 5000 False (world_with (expiring_row 4999)) (ascii ''abc'')))"
    by simp
  from gone_iff_inert [OF example_world_key r [of example_row], of False] a
  have 3: "fst (handleGetLink 5000 False (world_with example_row) (ascii ''abc'')) =
     Redirect (Val (ascii ''https://example.com''))"
    by simp
  from 1 2 3 r example_world_key show ?thesis by simp
qed

text \<open>
  What the row's object holds, property by property, and that no two rows have the same
  object or the same JSON text.
\<close>

lemma object_of_row_fields:
  "o_id (object_of_row row) = Val (link_id row)"
  "o_key (object_of_row row) = Val (link_key row)"
  "o_url (object_of_row row) = Val (link_url row)"
  "o_archived (object_of_row row) = Val (link_archived row)"
  "o_expiresAt (object_of_row row) =
     (case link_expiresAt row of None \<Rightarrow> Null | Some instant \<Rightarrow> Val instant)"
  "o_title (object_of_row row) = (case link_title row of None \<Rightarrow> Null | Some s \<Rightarrow> Val s)"
  "o_description (object_of_row row) =
     (case link_description row of None \<Rightarrow> Null | Some s \<Rightarrow> Val s)"
  "o_image (object_of_row row) = (case link_image row of None \<Rightarrow> Null | Some s \<Rightarrow> Val s)"
  "o_userId (object_of_row row) = (case link_userId row of None \<Rightarrow> Null | Some s \<Rightarrow> Val s)"
  "o_clicks (object_of_row row) = Val (link_clicks row)"
  "o_createdAt (object_of_row row) = Val (link_createdAt row)"
  "o_updatedAt (object_of_row row) = Val (link_updatedAt row)"
  by (simp_all add: object_of_row_def split: option.splits)

lemma of_option_inj: "of_option a = of_option b \<Longrightarrow> a = b"
  by (cases a; cases b) simp_all

lemma object_of_row_inj: "object_of_row r = object_of_row row \<Longrightarrow> r = row"
  by (cases r, cases row) (simp add: object_of_row_def of_option_inj)

lemma stringify_inj: "JSON_stringify a = JSON_stringify b \<Longrightarrow> a = b"
  by (simp add: JSON_stringify_def)

text \<open>
  Claim C3. When the lookup misses the cache and finds the record in the table, the
  handler leaves the cache with an entry for the key that holds the JSON text of the whole
  record and no expiry, whatever the response is (the write comes before the gates), and
  leaves the table as it was. At every later instant a lookup of the key hits that entry,
  and the response is computed from it without the table. The object parsed from the hit
  has every column of the record with the record's value: \<open>id\<close>, \<open>key\<close>, \<open>url\<close>,
  \<open>archived\<close>, \<open>expiresAt\<close>, \<open>title\<close>, \<open>description\<close>, \<open>image\<close>, \<open>userId\<close>, \<open>clicks\<close>,
  \<open>createdAt\<close> and \<open>updatedAt\<close>, with \<open>null\<close> for a column that is \<open>NULL\<close>. No other record
  has the content that the lookup returns.
\<close>

theorem miss_writes_through:
  assumes "key \<noteq> []" and "redis_get now (cache w) key = None" and "links w key = Some row"
    and "handleGetLink now is_bot w key = (resp, w', dispatched)"
  shows "cache w' = (cache w)(key \<mapsto>
             \<lparr>entry_value = JSON_stringify (object_of_row row), entry_exat = None\<rparr>) \<and>
         links w' = links w \<and>
         (\<forall>later. redis_get later (cache w') key = Some (JSON_stringify (object_of_row row))) \<and>
         JSON_parse (JSON_stringify (object_of_row row)) = object_of_row row \<and>
         (\<forall>later bot t. fst (handleGetLink later bot (w'\<lparr>links := t\<rparr>) key) =
             fst (respond_with_link later bot key (object_of_row row))) \<and>
         (\<forall>later. \<exists>cached.
            redis_get later (cache w') key = Some cached \<and>
            o_id (JSON_parse cached) = Val (link_id row) \<and>
            o_key (JSON_parse cached) = Val (link_key row) \<and>
            o_url (JSON_parse cached) = Val (link_url row) \<and>
            o_archived (JSON_parse cached) = Val (link_archived row) \<and>
            o_expiresAt (JSON_parse cached) =
              (case link_expiresAt row of None \<Rightarrow> Null | Some instant \<Rightarrow> Val instant) \<and>
            o_title (JSON_parse cached) =
              (case link_title row of None \<Rightarrow> Null | Some s \<Rightarrow> Val s) \<and>
            o_description (JSON_parse cached) =
              (case link_description row of None \<Rightarrow> Null | Some s \<Rightarrow> Val s) \<and>
            o_image (JSON_parse cached) =
              (case link_image row of None \<Rightarrow> Null | Some s \<Rightarrow> Val s) \<and>
            o_userId (JSON_parse cached) =
              (case link_userId row of None \<Rightarrow> Null | Some s \<Rightarrow> Val s) \<and>
            o_clicks (JSON_parse cached) = Val (link_clicks row) \<and>
            o_createdAt (JSON_parse cached) = Val (link_createdAt row) \<and>
            o_updatedAt (JSON_parse cached) = Val (link_updatedAt row)) \<and>
         (\<forall>later other.
            redis_get later (cache w') key = Some (JSON_stringify (object_of_row other)) \<longrightarrow>
            other = row)"
proof -
  from assms have w': "w' = w\<lparr>cache := (cache w)(key \<mapsto>
          \<lparr>entry_value = JSON_stringify (object_of_row row), entry_exat = None\<rparr>)\<rparr>"
    by (simp add: get_miss)
  then have c: "cache w' = (cache w)(key \<mapsto>
             \<lparr>entry_value = JSON_stringify (object_of_row row), entry_exat = None\<rparr>)"
    and l: "links w' = links w" by simp_all
  from c have hit: "redis_get later (cache w') key = Some (JSON_stringify (object_of_row row))"
    for later by (simp add: redis_get_def entry_live_def)
  have served: "fst (handleGetLink later bot (w'\<lparr>links := t\<rparr>) key) =
             fst (respond_with_link later bot key (object_of_row row))" for later bot t
  proof -
    have "redis_get later (cache (w'\<lparr>links := t\<rparr>)) key =
            Some (JSON_stringify (object_of_row row))" using hit by simp
    with assms(1) show ?thesis by (simp add: get_hit parse_stringify)
  qed
  have fields: "\<exists>cached.
            redis_get later (cache w') key = Some cached \<and>
            o_id (JSON_parse cached) = Val (link_id row) \<and>
            o_key (JSON_parse cached) = Val (link_key row) \<and>
            o_url (JSON_parse cached) = Val (link_url row) \<and>
            o_archived (JSON_parse cached) = Val (link_archived row) \<and>
            o_expiresAt (JSON_parse cached) =
              (case link_expiresAt row of None \<Rightarrow> Null | Some instant \<Rightarrow> Val instant) \<and>
            o_title (JSON_parse cached) =
              (case link_title row of None \<Rightarrow> Null | Some s \<Rightarrow> Val s) \<and>
            o_description (JSON_parse cached) =
              (case link_description row of None \<Rightarrow> Null | Some s \<Rightarrow> Val s) \<and>
            o_image (JSON_parse cached) =
              (case link_image row of None \<Rightarrow> Null | Some s \<Rightarrow> Val s) \<and>
            o_userId (JSON_parse cached) =
              (case link_userId row of None \<Rightarrow> Null | Some s \<Rightarrow> Val s) \<and>
            o_clicks (JSON_parse cached) = Val (link_clicks row) \<and>
            o_createdAt (JSON_parse cached) = Val (link_createdAt row) \<and>
            o_updatedAt (JSON_parse cached) = Val (link_updatedAt row)" for later
    unfolding hit
    by (rule exI [of _ "JSON_stringify (object_of_row row)"])
       (simp only: parse_stringify object_of_row_fields simp_thms)
  have only: "other = row"
    if "redis_get later (cache w') key = Some (JSON_stringify (object_of_row other))"
    for later other
  proof -
    from that hit have "JSON_stringify (object_of_row other) = JSON_stringify (object_of_row row)"
      by simp
    then have "object_of_row other = object_of_row row" by (rule stringify_inj)
    then show ?thesis by (rule object_of_row_inj)
  qed
  have first: "cache w' = (cache w)(key \<mapsto>
             \<lparr>entry_value = JSON_stringify (object_of_row row), entry_exat = None\<rparr>) \<and>
         links w' = links w \<and>
         (\<forall>later. redis_get later (cache w') key = Some (JSON_stringify (object_of_row row))) \<and>
         JSON_parse (JSON_stringify (object_of_row row)) = object_of_row row \<and>
         (\<forall>later bot t. fst (handleGetLink later bot (w'\<lparr>links := t\<rparr>) key) =
             fst (respond_with_link later bot key (object_of_row row)))"
    using c l hit served by (simp add: parse_stringify)
  from first fields only show ?thesis by blast
qed

theorem miss_writes_through_witness:
  "ascii ''abc'' \<noteq> [] \<and> redis_get 5000 (cache (world_with archived_row)) (ascii ''abc'') = None \<and>
   links (world_with archived_row) (ascii ''abc'') = Some archived_row \<and>
   handleGetLink 5000 False (world_with archived_row) (ascii ''abc'') =
     (Gone ''Link archived'',
      (world_with archived_row)\<lparr>cache := [ascii ''abc'' \<mapsto>
         \<lparr>entry_value = JSON_stringify (object_of_row archived_row), entry_exat = None\<rparr>]\<rparr>,
      None) \<and>
   redis_get 9000 [ascii ''abc'' \<mapsto>
         \<lparr>entry_value = JSON_stringify (object_of_row archived_row), entry_exat = None\<rparr>]
       (ascii ''abc'') = Some (JSON_stringify (object_of_row archived_row)) \<and>
   (\<exists>cached.
      redis_get 9000 [ascii ''abc'' \<mapsto>
         \<lparr>entry_value = JSON_stringify (object_of_row archived_row), entry_exat = None\<rparr>]
       (ascii ''abc'') = Some cached \<and>
      o_id (JSON_parse cached) = Val (ascii ''id1'') \<and>
      o_key (JSON_parse cached) = Val (ascii ''abc'') \<and>
      o_url (JSON_parse cached) = Val (ascii ''https://example.com'') \<and>
      o_archived (JSON_parse cached) = Val True \<and>
      o_expiresAt (JSON_parse cached) = Null \<and>
      o_title (JSON_parse cached) = Null \<and>
      o_description (JSON_parse cached) = Null \<and>
      o_image (JSON_parse cached) = Null \<and>
      o_userId (JSON_parse cached) = Null \<and>
      o_clicks (JSON_parse cached) = Val 7 \<and>
      o_createdAt (JSON_parse cached) = Val 1000 \<and>
      o_updatedAt (JSON_parse cached) = Val 1000)"
proof -
  have m: "redis_get 5000 (cache (world_with archived_row)) (ascii ''abc'') = None"
    by (simp add: world_with_def redis_get_def)
  have l: "links (world_with archived_row) (ascii ''abc'') = Some archived_row"
    by (simp add: world_with_def)
  have g: "handleGetLink 5000 False (world_with archived_row) (ascii ''abc'') =
     (Gone ''Link archived'',
      (world_with archived_row)\<lparr>cache := [ascii ''abc'' \<mapsto>
         \<lparr>entry_value = JSON_stringify (object_of_row archived_row), entry_exat = None\<rparr>]\<rparr>,
      None)"
    unfolding get_miss [OF example_world_key m l]
    by (simp add: respond_with_link_def object_of_row_def archived_row_def example_row_def
        world_with_def)
  have c0: "cache (world_with archived_row) = Map.empty" by (simp add: world_with_def)
  have f: "link_id archived_row = ascii ''id1''" "link_key archived_row = ascii ''abc''"
    "link_url archived_row = ascii ''https://example.com''" "link_archived archived_row = True"
    "link_expiresAt archived_row = None" "link_title archived_row = None"
    "link_description archived_row = None" "link_image archived_row = None"
    "link_userId archived_row = None" "link_clicks archived_row = 7"
    "link_createdAt archived_row = 1000" "link_updatedAt archived_row = 1000"
    by (simp_all add: archived_row_def example_row_def)
  note inst = miss_writes_through [OF example_world_key m l g]
  from inst
  have hit: "redis_get 9000 [ascii ''abc'' \<mapsto>
         \<lparr>entry_value = JSON_stringify (object_of_row archived_row), entry_exat = None\<rparr>]
       (ascii ''abc'') = Some (JSON_stringify (object_of_row archived_row))"
    by (simp add: c0)
  from inst [THEN conjunct2, THEN conjunct2, THEN conjunct2, THEN conjunct2, THEN conjunct2,
      THEN conjunct1]
  have "\<forall>later. \<exists>cached.
      redis_get later [ascii ''abc'' \<mapsto>
         \<lparr>entry_value = JSON_stringify (object_of_row archived_row), entry_exat = None\<rparr>]
       (ascii ''abc'') = Some cached \<and>
      o_id (JSON_parse cached) = Val (ascii ''id1'') \<and>
      o_key (JSON_parse cached) = Val (ascii ''abc'') \<and>
      o_url (JSON_parse cached) = Val (ascii ''https://example.com'') \<and>
      o_archived (JSON_parse cached) = Val True \<and>
      o_expiresAt (JSON_parse cached) = Null \<and>
      o_title (JSON_parse cached) = Null \<and>
      o_description (JSON_parse cached) = Null \<and>
      o_image (JSON_parse cached) = Null \<and>
      o_userId (JSON_parse cached) = Null \<and>
      o_clicks (JSON_parse cached) = Val 7 \<and>
      o_createdAt (JSON_parse cached) = Val 1000 \<and>
      o_updatedAt (JSON_parse cached) = Val 1000"
    by (simp add: c0 f)
  then have "\<exists>cached.
      redis_get 9000 [ascii ''abc'' \<mapsto>
         \<lparr>entry_value = JSON_stringify (object_of_row archived_row), entry_exat = None\<rparr>]
       (ascii ''abc'') = Some cached \<and>
      o_id (JSON_parse cached) = Val (ascii ''id1'') \<and>
      o_key (JSON_parse cached) = Val (ascii ''abc'') \<and>
      o_url (JSON_parse cached) = Val (ascii ''https://example.com'') \<and>
      o_archived (JSON_parse cached) = Val True \<and>
      o_expiresAt (JSON_parse cached) = Null \<and>
      o_title (JSON_parse cached) = Null \<and>
      o_description (JSON_parse cached) = Null \<and>
      o_image (JSON_parse cached) = Null \<and>
      o_userId (JSON_parse cached) = Null \<and>
      o_clicks (JSON_parse cached) = Val 7 \<and>
      o_createdAt (JSON_parse cached) = Val 1000 \<and>
      o_updatedAt (JSON_parse cached) = Val 1000"
    by (rule spec)
  with hit m l g example_world_key show ?thesis by blast
qed

section \<open>Properties of archival\<close>

lemma respond_Gone_no_dispatch:
  "is_Gone (fst (respond_with_link now is_bot key obj)) \<Longrightarrow>
   snd (respond_with_link now is_bot key obj) = None"
  by (simp add: respond_with_link_def split: if_splits)

lemma archived_stays_gone:
  assumes key: "key \<noteq> []"
    and row: "links w key = Some row" and arch: "link_archived row"
    and ent: "\<forall>e. cache w key = Some e \<longrightarrow>
               (\<exists>r. entry_value e = JSON_stringify (object_of_row r) \<and> link_archived r)"
    and get: "handleGetLink now is_bot w key = (resp, w', dispatched)"
  shows "is_Gone resp \<and> dispatched = None \<and> links w' = links w \<and>
         (\<forall>e. cache w' key = Some e \<longrightarrow>
               (\<exists>r. entry_value e = JSON_stringify (object_of_row r) \<and> link_archived r))"
proof (cases "redis_get now (cache w) key")
  case None
  let ?o = "object_of_row row"
  from get have r: "resp = fst (respond_with_link now is_bot key ?o)"
    and d: "dispatched = snd (respond_with_link now is_bot key ?o)"
    and w': "w' = w\<lparr>cache := (cache w)(key \<mapsto>
          \<lparr>entry_value = JSON_stringify ?o, entry_exat = None\<rparr>)\<rparr>"
    unfolding get_miss [OF key None row] by simp_all
  from arch have g: "is_Gone (fst (respond_with_link now is_bot key ?o))"
    by (simp add: respond_row_Gone)
  with r d have "is_Gone resp" "dispatched = None"
    by (simp_all add: respond_Gone_no_dispatch)
  moreover from w' arch have "links w' = links w"
    "\<forall>e. cache w' key = Some e \<longrightarrow>
               (\<exists>r. entry_value e = JSON_stringify (object_of_row r) \<and> link_archived r)"
    by auto
  ultimately show ?thesis by blast
next
  case (Some json)
  then obtain e where e: "cache w key = Some e" "entry_value e = json"
    by (auto simp: redis_get_def split: option.splits if_splits)
  with ent obtain r where t: "json = JSON_stringify (object_of_row r)" and a: "link_archived r"
    by auto
  let ?o = "object_of_row r"
  from get have r: "resp = fst (respond_with_link now is_bot key ?o)"
    and d: "dispatched = snd (respond_with_link now is_bot key ?o)" and w': "w' = w"
    unfolding get_hit [OF key Some] t parse_stringify by simp_all
  from a have "is_Gone (fst (respond_with_link now is_bot key ?o))"
    by (simp add: respond_row_Gone)
  with r d have "is_Gone resp" "dispatched = None"
    by (simp_all add: respond_Gone_no_dispatch)
  with w' ent show ?thesis by simp
qed

lemma resolutions_all_gone:
  assumes "key \<noteq> []" "links w key = Some row" "link_archived row"
    "\<forall>e. cache w key = Some e \<longrightarrow>
        (\<exists>r. entry_value e = JSON_stringify (object_of_row r) \<and> link_archived r)"
  shows "list_all is_Gone (resolutions reqs w key) \<and>
         length (resolutions reqs w key) = length reqs"
  using assms
proof (induction reqs arbitrary: w)
  case Nil
  show ?case by simp
next
  case (Cons req reqs)
  obtain now is_bot where req: "req = (now, is_bot)" by (cases req)
  obtain resp w' dispatched where get: "handleGetLink now is_bot w key = (resp, w', dispatched)"
    by (cases "handleGetLink now is_bot w key")
  from archived_stays_gone [OF Cons.prems get]
  have g: "is_Gone resp" and d: "dispatched = None" and l: "links w' = links w"
    and c: "\<forall>e. cache w' key = Some e \<longrightarrow>
        (\<exists>r. entry_value e = JSON_stringify (object_of_row r) \<and> link_archived r)"
    by blast+
  from l Cons.prems have "links w' key = Some row" by simp
  from Cons.IH [OF Cons.prems(1) this Cons.prems(3) c]
  have "list_all is_Gone (resolutions reqs w' key) \<and>
         length (resolutions reqs w' key) = length reqs" .
  with g d req get show ?case by (simp add: run_worker_def)
qed

text \<open>
  Claim C7. For a key as the route delivers it (not empty): \<open>handleLinkArchive\<close> answers
  NotFound exactly when the table has no row with the key, and Conflict exactly when the
  row is already archived; in both cases the table and the cache stay as they were.
  Otherwise it answers OK, the row has \<open>archived\<close> set (and \<open>updatedAt\<close> stamped), the cache
  has no entry for the key, and every resolution of the key that follows, served one after
  the other at any instants and for any clients, is answered with Gone.
\<close>

theorem archive_outcomes:
  assumes "key \<noteq> []" and "handleLinkArchive now w key = (resp, w')"
  shows "(resp = NotFound ''Link not found'' \<longleftrightarrow> links w key = None) \<and>
         (resp = Conflict ''Link already archived'' \<longleftrightarrow>
            (\<exists>row. links w key = Some row \<and> link_archived row)) \<and>
         (resp = NotFound ''Link not found'' \<or> resp = Conflict ''Link already archived'' \<longrightarrow>
            w' = w) \<and>
         (\<forall>row. links w key = Some row \<and> \<not> link_archived row \<longrightarrow>
            resp = Ok ''Link archived'' \<and>
            links w' = (links w)(key \<mapsto> row\<lparr>link_archived := True, link_updatedAt := now\<rparr>) \<and>
            cache w' = (cache w)(key := None) \<and>
            (\<forall>reqs. list_all is_Gone (resolutions reqs w' key) \<and>
                    length (resolutions reqs w' key) = length reqs))"
proof (cases "links w key")
  case None
  with assms show ?thesis by (auto simp: handleLinkArchive_def)
next
  case (Some row)
  show ?thesis
  proof (cases "link_archived row")
    case True
    with Some assms show ?thesis by (auto simp: handleLinkArchive_def)
  next
    case False
    let ?row' = "row\<lparr>link_archived := True, link_updatedAt := now\<rparr>"
    from False Some assms have r: "resp = Ok ''Link archived''"
      and w': "w' = w\<lparr>cache := redis_del (cache w) key,
                       links := (links w)(key \<mapsto> ?row')\<rparr>"
      by (simp_all add: handleLinkArchive_def link_update_def Let_def)
    from w' have l: "links w' key = Some ?row'" and c: "cache w' key = None"
      by (simp_all add: redis_del_def)
    have a: "link_archived ?row'" by simp
    from c have e: "\<forall>e. cache w' key = Some e \<longrightarrow>
        (\<exists>r. entry_value e = JSON_stringify (object_of_row r) \<and> link_archived r)" by simp
    have "list_all is_Gone (resolutions reqs w' key) \<and>
          length (resolutions reqs w' key) = length reqs" for reqs
      using assms(1) l a e by (rule resolutions_all_gone)
    with r w' False Some show ?thesis by (simp add: redis_del_def)
  qed
qed

theorem archive_outcomes_witness:
  "ascii ''abc'' \<noteq> [] \<and>
   handleLinkArchive 2000 example_world (ascii ''abc'') =
     (Ok ''Link archived'',
      \<lparr>links = [ascii ''abc'' \<mapsto> example_row\<lparr>link_archived := True, link_updatedAt := 2000\<rparr>],
       cache = Map.empty\<rparr>) \<and>
   links example_world (ascii ''abc'') = Some example_row \<and> \<not> link_archived example_row \<and>
   list_all is_Gone
     (resolutions [(3000, False), (4000, True)]
        \<lparr>links = [ascii ''abc'' \<mapsto> example_row\<lparr>link_archived := True, link_updatedAt := 2000\<rparr>],
         cache = Map.empty\<rparr> (ascii ''abc'')) \<and>
   length
     (resolutions [(3000, False), (4000, True)]
        \<lparr>links = [ascii ''abc'' \<mapsto> example_row\<lparr>link_archived := True, link_updatedAt := 2000\<rparr>],
         cache = Map.empty\<rparr> (ascii ''abc'')) = 2"
proof -
  have l: "links example_world (ascii ''abc'') = Some example_row"
    by (simp add: example_world_def)
  have n: "\<not> link_archived example_row" by (simp add: example_row_def)
  have a: "handleLinkArchive 2000 example_world (ascii ''abc'') =
     (Ok ''Link archived'',
      \<lparr>links = [ascii ''abc'' \<mapsto> example_row\<lparr>link_archived := True, link_updatedAt := 2000\<rparr>],
       cache = Map.empty\<rparr>)"
    using example_world_key n
    by (simp add: handleLinkArchive_def example_world_def link_update_def redis_del_def)
  from archive_outcomes [OF example_world_key a] l n
  have "list_all is_Gone
     (resolutions [(3000, False), (4000, True)]
        \<lparr>links = [ascii ''abc'' \<mapsto> example_row\<lparr>link_archived := True, link_updatedAt := 2000\<rparr>],
         cache = Map.empty\<rparr> (ascii ''abc'')) \<and>
   length
     (resolutions [(3000, False), (4000, True)]
        \<lparr>links = [ascii ''abc'' \<mapsto> example_row\<lparr>link_archived := True, link_updatedAt := 2000\<rparr>],
         cache = Map.empty\<rparr> (ascii ''abc'')) = length [(3000 :: int, False), (4000, True)]"
    by blast
  with a l n example_world_key show ?thesis by simp
qed

section \<open>Properties of the cache entry written at creation\<close>






end
